theory Spec2Isabelle
  imports Main "HOL-Library.Product_Lexorder"
begin

section \<open>Calendar dates and datetimes\<close>

text \<open>
  The program works on Python \<^verbatim>\<open>datetime\<close> values that all carry the time zone UTC
  (\<^verbatim>\<open>parse_date_ymd\<close> and the fallback of \<^verbatim>\<open>get_reference_date\<close> attach
  \<^verbatim>\<open>timezone.utc\<close>).  The calendar date of a value is kept as its proleptic Gregorian
  ordinal (the number \<^verbatim>\<open>date.toordinal()\<close> returns, day 1 being 0001-01-01): date
  differences, date comparison and \<^verbatim>\<open>timedelta\<close> arithmetic of the library are all
  defined on that number.  The time of day is kept field by field.
\<close>

datatype py_error = ZeroDivisionError | OverflowError | ValueError | IndexError

datatype datetime =
  Datetime (ordinal: int) (hour: nat) (minute: nat) (second: nat) (microsecond: nat)

definition MAXORDINAL :: int where
  "MAXORDINAL = 3652059"

definition valid_datetime :: "datetime \<Rightarrow> bool" where
  "valid_datetime dt \<longleftrightarrow>
     0 < ordinal dt \<and> ordinal dt \<le> MAXORDINAL \<and>
     hour dt < 24 \<and> minute dt < 60 \<and> second dt < 60 \<and> microsecond dt < 1000000"

text \<open>Two values with the same time zone object compare field by field, date first.\<close>

definition cmp_key :: "datetime \<Rightarrow> int \<times> nat \<times> nat \<times> nat \<times> nat" where
  "cmp_key dt = (ordinal dt, hour dt, minute dt, second dt, microsecond dt)"

instantiation datetime :: linorder
begin

definition less_eq_datetime :: "datetime \<Rightarrow> datetime \<Rightarrow> bool" where
  "less_eq_datetime a b \<longleftrightarrow> cmp_key a \<le> cmp_key b"

definition less_datetime :: "datetime \<Rightarrow> datetime \<Rightarrow> bool" where
  "less_datetime a b \<longleftrightarrow> cmp_key a < cmp_key b"

instance
proof
  fix x y z :: datetime
  show "x < y \<longleftrightarrow> x \<le> y \<and> \<not> y \<le> x"
    unfolding less_eq_datetime_def less_datetime_def by (rule less_le_not_le)
  show "x \<le> x"
    unfolding less_eq_datetime_def by simp
  show "x \<le> y \<Longrightarrow> y \<le> z \<Longrightarrow> x \<le> z"
    unfolding less_eq_datetime_def by (rule order_trans)
  show "x \<le> y \<or> y \<le> x"
    unfolding less_eq_datetime_def by (rule linear)
  show "x \<le> y \<Longrightarrow> y \<le> x \<Longrightarrow> x = y"
  proof -
    assume "x \<le> y" and "y \<le> x"
    then have "cmp_key x = cmp_key y"
      unfolding less_eq_datetime_def by (rule antisym)
    then show "x = y"
      by (cases x, cases y) (simp add: cmp_key_def)
  qed
qed

end

text \<open>The calendar arithmetic of the library's \<^verbatim>\<open>datetime\<close> module.\<close>

definition is_leap :: "nat \<Rightarrow> bool" where
  "is_leap year \<longleftrightarrow> year mod 4 = 0 \<and> (year mod 100 \<noteq> 0 \<or> year mod 400 = 0)"

definition days_before_year :: "nat \<Rightarrow> int" where
  "days_before_year year =
     (let y = int year - 1 in y * 365 + y div 4 - y div 100 + y div 400)"

definition days_in_month :: "nat \<Rightarrow> nat \<Rightarrow> nat" where
  "days_in_month year month =
     (if month = 2 \<and> is_leap year then 29
      else [31, 28, 31, 30, 31, 30, 31, 31, 30, 31, 30, 31] ! (month - 1))"

definition days_before_month :: "nat \<Rightarrow> nat \<Rightarrow> nat" where
  "days_before_month year month =
     [0, 31, 59, 90, 120, 151, 181, 212, 243, 273, 304, 334] ! (month - 1)
       + (if month > 2 \<and> is_leap year then 1 else 0)"

definition ymd2ord :: "nat \<Rightarrow> nat \<Rightarrow> nat \<Rightarrow> int" where
  "ymd2ord year month day =
     days_before_year year + int (days_before_month year month) + int day"

definition check_date_fields :: "nat \<Rightarrow> nat \<Rightarrow> nat \<Rightarrow> bool" where
  "check_date_fields year month day \<longleftrightarrow>
     1 \<le> year \<and> year \<le> 9999 \<and> 1 \<le> month \<and> month \<le> 12 \<and>
     1 \<le> day \<and> day \<le> days_in_month year month"

text \<open>\<^verbatim>\<open>datetime(year, month, day, tzinfo=timezone.utc)\<close>: midnight of a calendar day.\<close>

definition midnight :: "nat \<Rightarrow> nat \<Rightarrow> nat \<Rightarrow> datetime" where
  "midnight year month day = Datetime (ymd2ord year month day) 0 0 0 0"

text \<open>
  \<^verbatim>\<open>dt - timedelta(days=n)\<close>.  The \<^verbatim>\<open>timedelta\<close> constructor refuses more than
  999999999 days, and the difference must be a day between 0001-01-01 and 9999-12-31;
  both failures are an \<^verbatim>\<open>OverflowError\<close>.  The time of day is unchanged.
\<close>

definition sub_days :: "datetime \<Rightarrow> int \<Rightarrow> py_error + datetime" where
  "sub_days dt n =
     (if \<bar>n\<bar> > 999999999 then Inl OverflowError
      else let d = ordinal dt - n
           in if 0 < d \<and> d \<le> MAXORDINAL
              then Inr (Datetime d (hour dt) (minute dt) (second dt) (microsecond dt))
              else Inl OverflowError)"

text \<open>\<^verbatim>\<open>dt.replace(hour=0, minute=0, second=0, microsecond=0, tzinfo=timezone.utc)\<close>\<close>

definition replace_midnight :: "datetime \<Rightarrow> datetime" where
  "replace_midnight dt = Datetime (ordinal dt) 0 0 0 0"

section \<open>The date/phase resolver\<close>

text \<open>
  \<^verbatim>\<open>same_phase\<close>: the difference of the two calendar days modulo the period.  Python's
  \<^verbatim>\<open>%\<close> takes the sign of the divisor, as \<open>mod\<close> on \<open>int\<close> does, and raises on a zero
  divisor.
\<close>

definition same_phase :: "datetime \<Rightarrow> datetime \<Rightarrow> int \<Rightarrow> py_error + bool" where
  "same_phase chosen ref period_days =
     (if period_days = 0 then Inl ZeroDivisionError
      else Inr ((ordinal chosen - ordinal ref) mod period_days = 0))"

text \<open>The comprehension \<^verbatim>\<open>[r for r in reference_dates if same_phase(chosen, r, period_days)]\<close>.\<close>

fun phase_matches :: "datetime \<Rightarrow> datetime list \<Rightarrow> int \<Rightarrow> py_error + datetime list" where
  "phase_matches chosen [] period_days = Inr []"
| "phase_matches chosen (r # rs) period_days =
     (case same_phase chosen r period_days of
        Inl e \<Rightarrow> Inl e
      | Inr b \<Rightarrow>
          (case phase_matches chosen rs period_days of
             Inl e \<Rightarrow> Inl e
           | Inr ms \<Rightarrow> Inr (if b then r # ms else ms)))"

text \<open>The builtins \<^verbatim>\<open>min\<close> and \<^verbatim>\<open>max\<close> on a list; both raise on an empty one.\<close>

definition py_min :: "datetime list \<Rightarrow> py_error + datetime" where
  "py_min xs = (case xs of [] \<Rightarrow> Inl ValueError | x # r \<Rightarrow> Inr (fold min r x))"

definition py_max_default :: "datetime list \<Rightarrow> datetime \<Rightarrow> datetime" where
  "py_max_default xs dflt = (case xs of [] \<Rightarrow> dflt | x # r \<Rightarrow> fold max r x)"

text \<open>The loop \<^verbatim>\<open>for r in reversed(matches): if r <= chosen: return r\<close>.\<close>

fun latest_not_after :: "datetime \<Rightarrow> datetime list \<Rightarrow> datetime option" where
  "latest_not_after chosen [] = None"
| "latest_not_after chosen (r # rs) =
     (if r \<le> chosen then Some r else latest_not_after chosen rs)"

definition get_reference_date ::
    "datetime \<Rightarrow> datetime list \<Rightarrow> int \<Rightarrow> py_error + datetime option" where
  "get_reference_date chosen reference_dates period_days =
     (if reference_dates = [] then Inr None
      else case phase_matches chosen reference_dates period_days of
        Inl e \<Rightarrow> Inl e
      | Inr matches \<Rightarrow>
          if matches \<noteq> [] then
            (let sorted_matches = sort matches
             in case latest_not_after chosen (rev sorted_matches) of
                  Some r \<Rightarrow> Inr (Some r)
                | None \<Rightarrow>
                    (case sorted_matches of
                       [] \<Rightarrow> Inl IndexError
                     | m # _ \<Rightarrow> Inr (Some m)))
          else
            (case py_min reference_dates of
               Inl e \<Rightarrow> Inl e
             | Inr dflt \<Rightarrow>
                 (let anchor = py_max_default (filter (\<lambda>r. r \<le> chosen) reference_dates) dflt;
                      shift = (ordinal chosen - ordinal anchor) mod period_days
                  in case sub_days chosen shift of
                       Inl e \<Rightarrow> Inl e
                     | Inr d \<Rightarrow> Inr (Some (replace_midnight d)))))"

text \<open>
  Vocabulary for stating what the resolver returns: the reference dates in phase with the
  chosen date, the members of a set that are not after the chosen date, and the anchor of
  the fallback rule (the latest reference date not after the chosen date, or the earliest
  reference date when there is none).
\<close>

definition in_phase :: "datetime \<Rightarrow> int \<Rightarrow> datetime list \<Rightarrow> datetime set" where
  "in_phase d p R = {r \<in> set R. same_phase d r p = Inr True}"

definition not_after :: "datetime \<Rightarrow> datetime set \<Rightarrow> datetime set" where
  "not_after d S = {r \<in> S. r \<le> d}"

definition anchor_of :: "datetime \<Rightarrow> datetime list \<Rightarrow> datetime" where
  "anchor_of d R = (if not_after d (set R) \<noteq> {} then Max (not_after d (set R)) else Min (set R))"

section \<open>Property text and the date pattern\<close>

text \<open>
  Text is a list of characters, each a code point below 256.  On that range the pattern
  class \<^verbatim>\<open>\d\<close> of the library is the ten digits \<^verbatim>\<open>0\<close> to \<^verbatim>\<open>9\<close>, and \<^verbatim>\<open>\w\<close> (what
  \<^verbatim>\<open>str.isalnum\<close> accepts, and the underscore) is the ASCII letters and digits, the
  underscore, and the Latin-1 letters and numeric signs listed below.
\<close>

definition is_digit :: "char \<Rightarrow> bool" where
  "is_digit c \<longleftrightarrow> (48::nat) \<le> of_char c \<and> of_char c \<le> (57::nat)"

definition is_word :: "char \<Rightarrow> bool" where
  "is_word c \<longleftrightarrow>
     (let n = of_char c :: nat
      in (48 \<le> n \<and> n \<le> 57) \<or> (65 \<le> n \<and> n \<le> 90) \<or> n = 95 \<or> (97 \<le> n \<and> n \<le> 122)
         \<or> n = 170 \<or> n = 178 \<or> n = 179 \<or> n = 181 \<or> n = 185 \<or> n = 186
         \<or> n = 188 \<or> n = 189 \<or> n = 190
         \<or> (192 \<le> n \<and> n \<le> 214) \<or> (216 \<le> n \<and> n \<le> 246) \<or> 248 \<le> n)"

text \<open>
  \<^verbatim>\<open>\b\<close> holds between two neighbouring positions when exactly one of them is a word
  character; the outside of the text counts as not a word character.
\<close>

definition word_at :: "char option \<Rightarrow> bool" where
  "word_at c = (case c of None \<Rightarrow> False | Some x \<Rightarrow> is_word x)"

definition word_boundary :: "char option \<Rightarrow> char option \<Rightarrow> bool" where
  "word_boundary l r \<longleftrightarrow> word_at l \<noteq> word_at r"

definition first_char :: "string \<Rightarrow> char option" where
  "first_char s = (case s of [] \<Rightarrow> None | c # _ \<Rightarrow> Some c)"

text \<open>The group of \<^verbatim>\<open>DATE_RE\<close>, \<^verbatim>\<open>20\d{2}-\d{2}-\d{2}\<close>, against a text of ten characters.\<close>

definition date_body :: "string \<Rightarrow> bool" where
  "date_body h \<longleftrightarrow>
     length h = 10 \<and> h ! 0 = CHR ''2'' \<and> h ! 1 = CHR ''0'' \<and> is_digit (h ! 2) \<and> is_digit (h ! 3)
     \<and> h ! 4 = CHR ''-'' \<and> is_digit (h ! 5) \<and> is_digit (h ! 6)
     \<and> h ! 7 = CHR ''-'' \<and> is_digit (h ! 8) \<and> is_digit (h ! 9)"

text \<open>
  \<^verbatim>\<open>DATE_RE = re.compile(r"\b(20\d{2}-\d{2}-\d{2})\b")\<close> tried at one position: \<open>prev\<close> is
  the character before the position (none at the start of the text), \<open>s\<close> the text from
  the position on.
\<close>

definition DATE_RE_match :: "char option \<Rightarrow> string \<Rightarrow> bool" where
  "DATE_RE_match prev s \<longleftrightarrow>
     word_boundary prev (first_char s) \<and> date_body (take 10 s) \<and>
     word_boundary (Some (s ! 9)) (first_char (drop 10 s))"

text \<open>
  \<^verbatim>\<open>DATE_RE.findall\<close>: the scan goes left to right; a match yields its group and the scan
  resumes behind it, otherwise it moves on by one character.
\<close>

function findall_from :: "char option \<Rightarrow> string \<Rightarrow> string list" where
  "findall_from prev s =
     (if DATE_RE_match prev s
      then take 10 s # findall_from (Some (s ! 9)) (drop 10 s)
      else case s of [] \<Rightarrow> [] | c # cs \<Rightarrow> findall_from (Some c) cs)"
  by pat_completeness auto
termination
  by (relation "measure (\<lambda>(prev, s). length s)") (auto simp: DATE_RE_match_def date_body_def)

declare findall_from.simps [simp del]

definition DATE_RE_findall :: "string \<Rightarrow> string list" where
  "DATE_RE_findall s = findall_from None s"

section \<open>Parsing a date\<close>

definition digit_val :: "char \<Rightarrow> nat" where
  "digit_val c = of_char c - 48"

text \<open>
  The library turns the format \<^verbatim>\<open>%Y-%m-%d\<close> into the pattern
  \<^verbatim>\<open>(\d\d\d\d)-(1[0-2]|0[1-9]|[1-9])-(3[0-1]|[1-2]\d|0[1-9]|[1-9]| [1-9])\<close>.
  The two functions below list, in the order of the alternatives, the ways the month and
  the day group can match a prefix of a text, each with the number read and the rest.
\<close>

definition nonzero_digit :: "char \<Rightarrow> bool" where
  "nonzero_digit c \<longleftrightarrow> is_digit c \<and> c \<noteq> CHR ''0''"

definition month_alternatives :: "string \<Rightarrow> (nat \<times> string) list" where
  "month_alternatives s =
     (case s of
        a # b # r \<Rightarrow>
          (if a = CHR ''1'' \<and> (b = CHR ''0'' \<or> b = CHR ''1'' \<or> b = CHR ''2'')
           then [(10 + digit_val b, r)] else [])
          @ (if a = CHR ''0'' \<and> nonzero_digit b then [(digit_val b, r)] else [])
          @ (if nonzero_digit a then [(digit_val a, b # r)] else [])
      | [a] \<Rightarrow> (if nonzero_digit a then [(digit_val a, [])] else [])
      | [] \<Rightarrow> [])"

definition day_alternatives :: "string \<Rightarrow> (nat \<times> string) list" where
  "day_alternatives s =
     (case s of
        a # b # r \<Rightarrow>
          (if a = CHR ''3'' \<and> (b = CHR ''0'' \<or> b = CHR ''1'')
           then [(30 + digit_val b, r)] else [])
          @ (if (a = CHR ''1'' \<or> a = CHR ''2'') \<and> is_digit b
             then [(10 * digit_val a + digit_val b, r)] else [])
          @ (if a = CHR ''0'' \<and> nonzero_digit b then [(digit_val b, r)] else [])
          @ (if nonzero_digit a then [(digit_val a, b # r)] else [])
          @ (if a = CHR '' '' \<and> nonzero_digit b then [(digit_val b, r)] else [])
      | [a] \<Rightarrow> (if nonzero_digit a then [(digit_val a, [])] else [])
      | [] \<Rightarrow> [])"

text \<open>
  The pattern against a whole text: the first way through the alternatives that matches
  is taken, and text left over behind the match is an error, as is no match.
\<close>

definition strptime_fields :: "string \<Rightarrow> py_error + (nat \<times> nat \<times> nat)" where
  "strptime_fields s =
     (case s of
        y1 # y2 # y3 # y4 # dash # r \<Rightarrow>
          if is_digit y1 \<and> is_digit y2 \<and> is_digit y3 \<and> is_digit y4 \<and> dash = CHR ''-''
          then
            (case concat (map (\<lambda>(m, r2).
                     case r2 of
                       [] \<Rightarrow> []
                     | c # r3 \<Rightarrow> if c = CHR ''-''
                                then (case day_alternatives r3 of
                                        [] \<Rightarrow> []
                                      | (d, r4) # _ \<Rightarrow> [(m, d, r4)])
                                else [])
                   (month_alternatives r)) of
               [] \<Rightarrow> Inl ValueError
             | (m, d, rest) # _ \<Rightarrow>
                 if rest = []
                 then Inr (1000 * digit_val y1 + 100 * digit_val y2 + 10 * digit_val y3
                             + digit_val y4, m, d)
                 else Inl ValueError)
          else Inl ValueError
      | _ \<Rightarrow> Inl ValueError)"

text \<open>\<^verbatim>\<open>datetime.strptime(s, "%Y-%m-%d").replace(tzinfo=timezone.utc)\<close>\<close>

definition strptime_utc :: "string \<Rightarrow> py_error + datetime" where
  "strptime_utc s =
     (case strptime_fields s of
        Inl e \<Rightarrow> Inl e
      | Inr (y, m, d) \<Rightarrow>
          if check_date_fields y m d then Inr (midnight y m d) else Inl ValueError)"

text \<open>\<^verbatim>\<open>parse_date_ymd\<close>: every exception becomes \<^verbatim>\<open>None\<close>.\<close>

definition parse_date_ymd :: "string \<Rightarrow> datetime option" where
  "parse_date_ymd s =
     (case strptime_utc (take 10 s) of Inl e \<Rightarrow> None | Inr dt \<Rightarrow> Some dt)"

section \<open>Scanning feature properties\<close>

text \<open>
  A property value is \<^verbatim>\<open>None\<close>, a string, or any other value (number, boolean, list,
  object); for the last kind the text that \<^verbatim>\<open>str(v)\<close> gives is kept.  A property map
  lists its entries in the order of the dictionary.  A feature without properties, or
  with the properties \<^verbatim>\<open>null\<close>, has the property map \<open>None\<close>.
\<close>

datatype prop_value = PNone | PStr string | POther string

type_synonym props = "(string \<times> prop_value) list"

definition "values" :: "props option \<Rightarrow> prop_value list" where
  "values p = (case p of None \<Rightarrow> [] | Some d \<Rightarrow> map snd d)"

text \<open>The inner loop of \<^verbatim>\<open>extract_dates_from_properties\<close> over the hits of one value.\<close>

fun append_parsed :: "string list \<Rightarrow> datetime list \<Rightarrow> datetime list" where
  "append_parsed [] dates = dates"
| "append_parsed (hit # hits) dates =
     (case parse_date_ymd hit of
        Some dt \<Rightarrow> append_parsed hits (dates @ [dt])
      | None \<Rightarrow> append_parsed hits dates)"

fun extract_loop :: "prop_value list \<Rightarrow> datetime list \<Rightarrow> datetime list" where
  "extract_loop [] dates = dates"
| "extract_loop (PNone # vs) dates = extract_loop vs dates"
| "extract_loop (PStr s # vs) dates = extract_loop vs (append_parsed (DATE_RE_findall s) dates)"
| "extract_loop (POther t # vs) dates = extract_loop vs (append_parsed (DATE_RE_findall t) dates)"

definition extract_dates_from_properties :: "props option \<Rightarrow> datetime list" where
  "extract_dates_from_properties p = extract_loop (values p) []"

text \<open>\<^verbatim>\<open>feature_has_target_date\<close>: the same scan, leaving at the first hit equal to the target.\<close>

fun hit_equals :: "string list \<Rightarrow> string \<Rightarrow> bool" where
  "hit_equals [] target_ymd = False"
| "hit_equals (hit # hits) target_ymd = (if hit = target_ymd then True else hit_equals hits target_ymd)"

fun target_loop :: "prop_value list \<Rightarrow> string \<Rightarrow> bool" where
  "target_loop [] target_ymd = False"
| "target_loop (PNone # vs) target_ymd = target_loop vs target_ymd"
| "target_loop (PStr s # vs) target_ymd =
     (if hit_equals (DATE_RE_findall s) target_ymd then True else target_loop vs target_ymd)"
| "target_loop (POther t # vs) target_ymd =
     (if hit_equals (DATE_RE_findall t) target_ymd then True else target_loop vs target_ymd)"

definition feature_has_target_date :: "props option \<Rightarrow> string \<Rightarrow> bool" where
  "feature_has_target_date p target_ymd = target_loop (values p) target_ymd"

text \<open>
  Vocabulary for stating what the scan finds: position \<open>i\<close> of a text carries a date when
  the ten characters from \<open>i\<close> on have the shape of the pattern's group, the character
  before them (if any) is not a word character, and neither is the character behind them
  (if any).
\<close>

definition delimited_date_at :: "string \<Rightarrow> nat \<Rightarrow> bool" where
  "delimited_date_at s i \<longleftrightarrow>
     i + 10 \<le> length s \<and> date_body (take 10 (drop i s)) \<and>
     (i = 0 \<or> \<not> is_word (s ! (i - 1))) \<and>
     (i + 10 = length s \<or> \<not> is_word (s ! (i + 10)))"

text \<open>The texts that a property map offers to the scan: those of its values that are not none.\<close>

fun value_text :: "prop_value \<Rightarrow> string option" where
  "value_text PNone = None"
| "value_text (PStr s) = Some s"
| "value_text (POther t) = Some t"

definition texts :: "props option \<Rightarrow> string list" where
  "texts p = List.map_filter value_text (values p)"

text \<open>
  The same, for a scan that has already consumed the text before \<open>s\<close> and remembers its
  last character \<open>prev\<close>.
\<close>

definition date_from :: "char option \<Rightarrow> string \<Rightarrow> nat \<Rightarrow> bool" where
  "date_from prev s i \<longleftrightarrow>
     i + 10 \<le> length s \<and> date_body (take 10 (drop i s)) \<and>
     \<not> word_at (if i = 0 then prev else Some (s ! (i - 1))) \<and>
     (i + 10 = length s \<or> \<not> is_word (s ! (i + 10)))"

text \<open>The numbers written in a text of the pattern's shape.\<close>

definition hit_year :: "string \<Rightarrow> nat" where
  "hit_year h = 2000 + 10 * digit_val (h ! 2) + digit_val (h ! 3)"

definition hit_month :: "string \<Rightarrow> nat" where
  "hit_month h = 10 * digit_val (h ! 5) + digit_val (h ! 6)"

definition hit_day :: "string \<Rightarrow> nat" where
  "hit_day h = 10 * digit_val (h ! 8) + digit_val (h ! 9)"

section \<open>The plan loader and the coverage readout\<close>

text \<open>
  A feature of a plan: its property map and the geometry of its row in the satellite's
  table (row and feature share the index \<^verbatim>\<open>feat_idx\<close>).  The geometry library is not
  part of the program; its geometries are a type parameter.
\<close>

record 'g feature =
  properties :: "props option"
  geometry :: 'g

text \<open>
  The reference dates that \<^verbatim>\<open>load_reference_dates_and_gdfs\<close> derives for one satellite:
  \<^verbatim>\<open>dates.extend(...)\<close> over the features, then \<^verbatim>\<open>sorted(set(dates))\<close>.  A set keeps one
  of each group of equal values; its order does not matter, since the result is sorted.
\<close>

fun extend_dates :: "('g, 'x) feature_scheme list \<Rightarrow> datetime list \<Rightarrow> datetime list" where
  "extend_dates [] dates = dates"
| "extend_dates (f # fs) dates =
     extend_dates fs (dates @ extract_dates_from_properties (properties f))"

definition reference_dates :: "('g, 'x) feature_scheme list \<Rightarrow> datetime list" where
  "reference_dates feats = sort (remdups (extend_dates feats []))"

text \<open>
  The operations of the geometry library that the coverage code calls: the intersection
  test of a row with a geometry, the union of the geometries of a table, the union of two
  geometries, and the three lines that compute the areas and the rounded percentage,
  which either give the number shown or raise.
\<close>

record ('g, 'r) geometry_ops =
  intersects :: "'g \<Rightarrow> 'g \<Rightarrow> bool"
  unary_union :: "'g list \<Rightarrow> 'g"
  union2 :: "'g \<Rightarrow> 'g \<Rightarrow> 'g"
  area_percent :: "'g \<Rightarrow> 'g \<Rightarrow> py_error + 'r"

text \<open>
  One satellite of the loop: the resolved reference day \<^verbatim>\<open>refs.get(sat)\<close> and the
  features of its plan.  Its table is empty exactly when it has no feature.
\<close>

record 'g satellite =
  ref_day :: "string option"
  feats :: "'g feature list"

text \<open>
  The area of interest \<^verbatim>\<open>AOI_GDF\<close> is none or a table of geometries, possibly empty.
\<close>

definition aoi_shown :: "'g list option \<Rightarrow> bool" where
  "aoi_shown aoi = (case aoi of None \<Rightarrow> False | Some rows \<Rightarrow> rows \<noteq> [])"

definition aoi_union :: "('g, 'r) geometry_ops \<Rightarrow> 'g list option \<Rightarrow> 'g" where
  "aoi_union ops aoi = unary_union ops (case aoi of None \<Rightarrow> [] | Some rows \<Rightarrow> rows)"

text \<open>The rows of one satellite that reach the map, or none when the loop moves on.\<close>

definition satellite_rows ::
    "('g, 'r) geometry_ops \<Rightarrow> 'g list option \<Rightarrow> 'g satellite \<Rightarrow> 'g feature list option" where
  "satellite_rows ops aoi sat =
     (case ref_day sat of
        None \<Rightarrow> None
      | Some day \<Rightarrow>
          if day = [] \<or> feats sat = [] then None
          else
            (let sub = filter (\<lambda>f. feature_has_target_date (properties f) day) (feats sat)
             in if sub = [] then None
                else
                  (let sub2 = (if aoi_shown aoi
                               then filter (\<lambda>f. intersects ops (geometry f) (aoi_union ops aoi)) sub
                               else sub)
                   in if sub2 = [] then None else Some sub2)))"

text \<open>
  The loop over the satellites, with \<^verbatim>\<open>coverage_union\<close> as its state (\<open>None\<close> at the
  start).
\<close>

fun coverage_loop ::
    "('g, 'r) geometry_ops \<Rightarrow> 'g list option \<Rightarrow> 'g satellite list \<Rightarrow> 'g option \<Rightarrow> 'g option" where
  "coverage_loop ops aoi [] coverage_union = coverage_union"
| "coverage_loop ops aoi (sat # sats) coverage_union =
     (case satellite_rows ops aoi sat of
        None \<Rightarrow> coverage_loop ops aoi sats coverage_union
      | Some sub \<Rightarrow>
          if aoi_shown aoi then
            (case coverage_union of
               None \<Rightarrow>
                 coverage_loop ops aoi sats (Some (unary_union ops (map geometry sub)))
             | Some u \<Rightarrow>
                 coverage_loop ops aoi sats
                   (Some (union2 ops u (unary_union ops (map geometry sub)))))
          else coverage_loop ops aoi sats coverage_union)"

text \<open>
  The readout at the end of the page: the percentage shown, or none when nothing is
  shown.  An exception of the area computation is swallowed.
\<close>

definition coverage_readout ::
    "('g, 'r) geometry_ops \<Rightarrow> 'g list option \<Rightarrow> 'g satellite list \<Rightarrow> 'r option" where
  "coverage_readout ops aoi sats =
     (let coverage_union = coverage_loop ops aoi sats None
      in case aoi of
           None \<Rightarrow> None
         | Some rows \<Rightarrow>
             (case coverage_union of
                None \<Rightarrow> None
              | Some u \<Rightarrow>
                  (case area_percent ops (aoi_union ops aoi) u of
                     Inl e \<Rightarrow> None
                   | Inr v \<Rightarrow> Some v)))"

text \<open>
  Vocabulary for the readout: a satellite contributes when it has a reference day and one
  of its features carries that day and intersects the area of interest.
\<close>

definition contributes :: "('g, 'r) geometry_ops \<Rightarrow> 'g list option \<Rightarrow> 'g satellite \<Rightarrow> bool" where
  "contributes ops aoi sat =
     (case ref_day sat of
        None \<Rightarrow> False
      | Some day \<Rightarrow>
          list_ex (\<lambda>f. feature_has_target_date (properties f) day
                       \<and> intersects ops (geometry f) (aoi_union ops aoi)) (feats sat))"

text \<open>
  A small geometry for running the coverage code: a geometry is a list of grid cells, two
  geometries intersect when they share a cell, and the percentage is the share of the
  cells of the area of interest that are covered.  The example satellite has three
  features, two of them for the day 2024-05-02.
\<close>

definition cell_ops :: "(nat list, nat) geometry_ops" where
  "cell_ops =
     \<lparr> intersects = (\<lambda>a b. list_ex (\<lambda>x. List.member b x) a),
       unary_union = concat,
       union2 = (@),
       area_percent = (\<lambda>a u.
         if remdups a = [] then Inl ZeroDivisionError
         else Inr (100 * length (filter (List.member u) (remdups a)) div length (remdups a))) \<rparr>"

definition demo_sat :: "nat list satellite" where
  "demo_sat =
     \<lparr> ref_day = Some ''2024-05-02'',
       feats = [\<lparr> properties = Some [(''date'', PStr ''2024-05-02'')], geometry = [1, 2] \<rparr>,
                \<lparr> properties = Some [(''date'', PStr ''2024-05-03'')], geometry = [3] \<rparr>,
                \<lparr> properties = Some [(''date'', PStr ''2024-05-02'')], geometry = [7] \<rparr>] \<rparr>"
section \<open>Facts about the resolver\<close>

lemma phase_matches_filter:
  "p \<noteq> 0 \<Longrightarrow> phase_matches d R p = Inr (filter (\<lambda>r. same_phase d r p = Inr True) R)"
  by (induction R) (simp_all add: same_phase_def)

lemma latest_not_after_None:
  "latest_not_after c xs = None \<longleftrightarrow> (\<forall>r\<in>set xs. \<not> r \<le> c)"
  by (induction xs) auto

lemma latest_not_after_desc:
  "sorted (rev xs) \<Longrightarrow> \<exists>r\<in>set xs. r \<le> c \<Longrightarrow>
     latest_not_after c xs = Some (Max {r \<in> set xs. r \<le> c})"
proof (induction xs)
  case Nil
  then show ?case by simp
next
  case (Cons x xs)
  have desc: "\<forall>y\<in>set xs. y \<le> x" and srt: "sorted (rev xs)"
    using Cons.prems(1) by (auto simp: sorted_append)
  show ?case
  proof (cases "x \<le> c")
    case True
    have "Max {r \<in> set (x # xs). r \<le> c} = x"
      using True desc by (intro Max_eqI) auto
    with True show ?thesis by simp
  next
    case False
    then have ex: "\<exists>r\<in>set xs. r \<le> c" using Cons.prems(2) by auto
    have "{r \<in> set (x # xs). r \<le> c} = {r \<in> set xs. r \<le> c}"
      using False by auto
    with False Cons.IH[OF srt ex] show ?thesis by simp
  qed
qed

lemma sort_head_Min:
  "xs \<noteq> [] \<Longrightarrow> \<exists>m ms. sort xs = m # ms \<and> m = Min (set xs)"
proof -
  assume ne: "xs \<noteq> []"
  then have "sort xs \<noteq> []" by (metis set_empty set_sort)
  then obtain m ms where eq: "sort xs = m # ms" by (cases "sort xs") auto
  have "sorted (sort xs)" by (rule sorted_sort)
  then have "sorted (m # ms)" using eq by simp
  then have "\<forall>y\<in>set (m # ms). m \<le> y" by auto
  moreover have "set (m # ms) = set xs" using eq by (metis set_sort)
  ultimately have "Min (set xs) = m"
    by (intro Min_eqI) auto
  with eq show ?thesis by blast
qed

lemma py_min_Min: "xs \<noteq> [] \<Longrightarrow> py_min xs = Inr (Min (set xs))"
  by (cases xs) (simp_all add: py_min_def Min.set_eq_fold[symmetric])

lemma py_max_default_Max:
  "py_max_default xs dflt = (if xs = [] then dflt else Max (set xs))"
  by (cases xs) (simp_all add: py_max_default_def Max.set_eq_fold[symmetric])

lemma get_reference_date_primary:
  assumes p: "p \<noteq> 0" and ex: "in_phase d p R \<noteq> {}"
  shows "get_reference_date d R p =
           Inr (Some (if not_after d (in_phase d p R) \<noteq> {}
                      then Max (not_after d (in_phase d p R))
                      else Min (in_phase d p R)))"
proof -
  let ?ms = "filter (\<lambda>r. same_phase d r p = Inr True) R"
  have set_ms: "set ?ms = in_phase d p R" by (auto simp: in_phase_def)
  have ne: "?ms \<noteq> []" using ex set_ms by (metis set_empty)
  then have Rne: "R \<noteq> []" by auto
  have set_rev: "set (rev (sort ?ms)) = in_phase d p R" using set_ms by simp
  have desc: "sorted (rev (rev (sort ?ms)))" by simp
  obtain m ms where hd: "sort ?ms = m # ms" and m: "m = Min (set ?ms)"
    using sort_head_Min[OF ne] by blast
  show ?thesis
  proof (cases "not_after d (in_phase d p R) \<noteq> {}")
    case True
    then have "\<exists>r\<in>set (rev (sort ?ms)). r \<le> d"
      using set_rev by (auto simp: not_after_def)
    from latest_not_after_desc[OF desc this]
    have "latest_not_after d (rev (sort ?ms)) = Some (Max {r \<in> set (rev (sort ?ms)). r \<le> d})" .
    moreover have "{r \<in> set (rev (sort ?ms)). r \<le> d} = not_after d (in_phase d p R)"
      unfolding set_rev not_after_def ..
    ultimately
    have "latest_not_after d (rev (sort ?ms)) = Some (Max (not_after d (in_phase d p R)))"
      by (simp only:)
    with True Rne ne p show ?thesis
      by (simp add: get_reference_date_def phase_matches_filter)
  next
    case False
    then have "\<forall>r\<in>set (rev (sort ?ms)). \<not> r \<le> d"
      using set_rev by (auto simp: not_after_def)
    then have "latest_not_after d (rev (sort ?ms)) = None"
      by (simp only: latest_not_after_None)
    with False Rne ne p hd m set_ms show ?thesis
      by (simp add: get_reference_date_def phase_matches_filter)
  qed
qed

lemma get_reference_date_fallback:
  assumes p: "p \<noteq> 0" and Rne: "R \<noteq> []" and no: "in_phase d p R = {}"
  shows "get_reference_date d R p =
           (case sub_days d ((ordinal d - ordinal (anchor_of d R)) mod p) of
              Inl e \<Rightarrow> Inl e
            | Inr x \<Rightarrow> Inr (Some (replace_midnight x)))"
proof -
  have ms: "filter (\<lambda>r. same_phase d r p = Inr True) R = []"
    using no by (auto simp: in_phase_def filter_empty_conv)
  have set_c: "set (filter (\<lambda>r. r \<le> d) R) = not_after d (set R)"
    by (auto simp: not_after_def)
  have "py_max_default (filter (\<lambda>r. r \<le> d) R) (Min (set R)) = anchor_of d R"
    unfolding py_max_default_Max anchor_of_def using set_c
    by (metis set_empty)
  with p Rne ms show ?thesis
    by (simp add: get_reference_date_def phase_matches_filter py_min_Min)
qed

lemma sub_days_in_range:
  "0 \<le> n \<Longrightarrow> n < ordinal d \<Longrightarrow> ordinal d \<le> MAXORDINAL \<Longrightarrow>
     sub_days d n = Inr (Datetime (ordinal d - n) (hour d) (minute d) (second d) (microsecond d))"
  by (simp add: sub_days_def MAXORDINAL_def)

lemma sub_days_cases:
  "sub_days d n = Inl OverflowError \<or> (\<exists>x. sub_days d n = Inr x)"
  by (simp add: sub_days_def Let_def)

lemmas calendar_defs =
  midnight_def ymd2ord_def days_before_year_def days_before_month_def is_leap_def


section \<open>Facts about the scan\<close>

lemma is_digit_word: "is_digit c \<Longrightarrow> is_word c"
  by (simp add: is_digit_def is_word_def)

lemma is_word_two: "is_word CHR ''2''" and is_word_zero: "is_word CHR ''0''"
  and not_digit_dash: "\<not> is_digit CHR ''-''" and not_word_dash: "\<not> is_word CHR ''-''"
  by (simp_all add: is_word_def is_digit_def)

lemma date_body_at:
  "i + 10 \<le> length s \<Longrightarrow>
     date_body (take 10 (drop i s)) \<longleftrightarrow>
       s ! i = CHR ''2'' \<and> s ! (i + 1) = CHR ''0'' \<and> is_digit (s ! (i + 2)) \<and> is_digit (s ! (i + 3))
       \<and> s ! (i + 4) = CHR ''-'' \<and> is_digit (s ! (i + 5)) \<and> is_digit (s ! (i + 6))
       \<and> s ! (i + 7) = CHR ''-'' \<and> is_digit (s ! (i + 8)) \<and> is_digit (s ! (i + 9))"
  by (auto simp add: date_body_def min_def)

lemma DATE_RE_match_iff: "DATE_RE_match prev s \<longleftrightarrow> date_from prev s 0"
proof (cases "10 \<le> length s")
  case False
  then show ?thesis by (auto simp: DATE_RE_match_def date_from_def date_body_def)
next
  case True
  then obtain c cs where s: "s = c # cs" by (cases s) auto
  have fc: "first_char (drop 10 s) = (if length s = 10 then None else Some (s ! 10))"
    using True by (cases "drop 10 s") (auto simp: first_char_def hd_drop_conv_nth nth_via_drop)
  have b: "date_body (take 10 s) \<Longrightarrow> is_word (s ! 0) \<and> is_word (s ! 9)"
    using date_body_at[of 0 s] True by (auto simp: is_digit_word is_word_two)
  show ?thesis
    using True b fc s
    by (auto simp: DATE_RE_match_def date_from_def word_boundary_def word_at_def first_char_def)
qed

lemma date_from_Cons:
  "date_from prev (c # cs) (Suc j) \<longleftrightarrow> date_from (Some c) cs j"
  by (cases j) (simp_all add: date_from_def)

lemma date_from_drop:
  assumes len: "10 \<le> length s"
  shows "date_from prev s (j + 10) \<longleftrightarrow> date_from (Some (s ! 9)) (drop 10 s) j"
proof -
  have d: "drop j (drop 10 s) = drop (j + 10) s" by (simp add: add.commute)
  have n: "j + 10 \<le> length s \<Longrightarrow> drop 10 s ! j = s ! (j + 10)"
    using len by (simp add: add.commute)
  have m: "0 < j \<Longrightarrow> drop 10 s ! (j - 1) = s ! (j + 10 - 1)"
    using len by (simp add: nth_drop)
  show ?thesis
    using len n m unfolding date_from_def d
    by (cases "j = 0") (auto simp: nth_drop)
qed

lemma no_overlap:
  assumes a: "date_from prev s 0" and b: "date_from prev s i" and i: "0 < i" "i < 10"
  shows False
proof -
  have len0: "0 + 10 \<le> length s" and leni: "i + 10 \<le> length s"
    using a b by (simp_all add: date_from_def)
  have b0: "date_body (take 10 (drop 0 s))" using a by (simp add: date_from_def)
  note A = b0[unfolded date_body_at[OF len0]]
  have bi: "date_body (take 10 (drop i s))" using b by (simp add: date_from_def)
  note B = bi[unfolded date_body_at[OF leni]]
  have left: "\<not> is_word (s ! (i - 1))"
    using b i by (simp add: date_from_def word_at_def)
  have right: "\<not> is_word (s ! 10)"
    using a leni i by (simp add: date_from_def)
  from i have "i = 1 \<or> i = 2 \<or> i = 3 \<or> i = 4 \<or> i = 5 \<or> i = 6 \<or> i = 7 \<or> i = 8 \<or> i = 9"
    by arith
  then show False
  proof (elim disjE)
    assume "i = 1" with left A show False by (simp add: is_word_two)
  next
    assume "i = 2" with left A show False by (simp add: is_word_zero)
  next
    assume "i = 3" with left A show False by (simp add: is_digit_word numeral_2_eq_2)
  next
    assume "i = 4" with left A show False by (simp add: is_digit_word)
  next
    assume "i = 5" with B A show False by (simp add: not_digit_dash)
  next
    assume "i = 6" with left A show False by (simp add: is_digit_word)
  next
    assume "i = 7" with left A show False by (simp add: is_digit_word)
  next
    assume "i = 8" with B right show False by (simp add: is_digit_word)
  next
    assume "i = 9" with left A show False by (simp add: is_digit_word)
  qed
qed

lemma findall_from_hits:
  "h \<in> set (findall_from prev s) \<longleftrightarrow> (\<exists>i. date_from prev s i \<and> h = take 10 (drop i s))"
proof (induction prev s rule: findall_from.induct)
  case (1 prev s)
  show ?case
  proof (cases "DATE_RE_match prev s")
    case True
    then have at0: "date_from prev s 0" by (simp add: DATE_RE_match_iff)
    then have len: "10 \<le> length s" by (simp add: date_from_def)
    have unf: "findall_from prev s = take 10 s # findall_from (Some (s ! 9)) (drop 10 s)"
      using True by (subst findall_from.simps) simp
    have IH: "h \<in> set (findall_from (Some (s ! 9)) (drop 10 s)) \<longleftrightarrow>
        (\<exists>j. date_from (Some (s ! 9)) (drop 10 s) j \<and> h = take 10 (drop j (drop 10 s)))"
      using "1.IH"(1)[OF True] .
    show ?thesis
    proof
      assume "h \<in> set (findall_from prev s)"
      then consider "h = take 10 s" | "h \<in> set (findall_from (Some (s ! 9)) (drop 10 s))"
        unfolding unf by auto
      then show "\<exists>i. date_from prev s i \<and> h = take 10 (drop i s)"
      proof cases
        case 1
        with at0 show ?thesis by (intro exI[of _ 0]) simp
      next
        case 2
        then obtain j where j: "date_from (Some (s ! 9)) (drop 10 s) j"
            and h: "h = take 10 (drop j (drop 10 s))"
          using IH by blast
        from j have "date_from prev s (j + 10)" using date_from_drop[OF len] by blast
        moreover have "h = take 10 (drop (j + 10) s)" using h by (simp add: add.commute)
        ultimately show ?thesis by blast
      qed
    next
      assume "\<exists>i. date_from prev s i \<and> h = take 10 (drop i s)"
      then obtain i where i: "date_from prev s i" and h: "h = take 10 (drop i s)" by blast
      consider "i = 0" | "0 < i" "i < 10" | "10 \<le> i" by arith
      then show "h \<in> set (findall_from prev s)"
      proof cases
        case 1
        with h show ?thesis unfolding unf by simp
      next
        case 2
        with no_overlap[OF at0 i] show ?thesis by blast
      next
        case 3
        then obtain j where ij: "i = j + 10" by (metis le_add_diff_inverse2)
        with i have "date_from (Some (s ! 9)) (drop 10 s) j"
          using date_from_drop[OF len] by blast
        moreover have "h = take 10 (drop j (drop 10 s))" using h ij by (simp add: add.commute)
        ultimately have "h \<in> set (findall_from (Some (s ! 9)) (drop 10 s))"
          using IH by blast
        then show ?thesis unfolding unf by simp
      qed
    qed
  next
    case False
    then have not0: "\<not> date_from prev s 0" by (simp add: DATE_RE_match_iff)
    show ?thesis
    proof (cases s)
      case Nil
      then have "findall_from prev s = []"
        using False by (subst findall_from.simps) simp
      moreover have "\<not> date_from prev s i" for i using Nil by (simp add: date_from_def)
      ultimately show ?thesis by simp
    next
      case (Cons c cs)
      have unf: "findall_from prev s = findall_from (Some c) cs"
        using False Cons by (subst findall_from.simps) simp
      have IH: "h \<in> set (findall_from (Some c) cs) \<longleftrightarrow>
          (\<exists>j. date_from (Some c) cs j \<and> h = take 10 (drop j cs))"
        using "1.IH"(2)[OF False Cons] .
      show ?thesis
      proof
        assume "h \<in> set (findall_from prev s)"
        then obtain j where j: "date_from (Some c) cs j" and h: "h = take 10 (drop j cs)"
          using unf IH by auto
        from j have "date_from prev s (Suc j)" using Cons date_from_Cons by simp
        moreover have "h = take 10 (drop (Suc j) s)" using h Cons by simp
        ultimately show "\<exists>i. date_from prev s i \<and> h = take 10 (drop i s)" by blast
      next
        assume "\<exists>i. date_from prev s i \<and> h = take 10 (drop i s)"
        then obtain i where i: "date_from prev s i" and h: "h = take 10 (drop i s)" by blast
        from i not0 obtain j where ij: "i = Suc j" by (cases i) auto
        from i ij have "date_from (Some c) cs j" using Cons date_from_Cons by simp
        moreover have "h = take 10 (drop j cs)" using h ij Cons by simp
        ultimately have "h \<in> set (findall_from (Some c) cs)" using IH by blast
        then show "h \<in> set (findall_from prev s)" unfolding unf .
      qed
    qed
  qed
qed

lemma date_from_None: "date_from None s i \<longleftrightarrow> delimited_date_at s i"
  by (auto simp: date_from_def delimited_date_at_def word_at_def)

lemma DATE_RE_findall_hits:
  "h \<in> set (DATE_RE_findall s) \<longleftrightarrow> (\<exists>i. delimited_date_at s i \<and> h = take 10 (drop i s))"
  by (simp add: DATE_RE_findall_def findall_from_hits date_from_None)

section \<open>Facts about parsing\<close>

lemma digit_val_le: "is_digit c \<Longrightarrow> digit_val c \<le> 9"
  unfolding is_digit_def digit_val_def by arith

lemma digit_eq_iff:
  assumes "is_digit c" "is_digit d"
  shows "c = d \<longleftrightarrow> digit_val c = digit_val d"
proof
  assume "digit_val c = digit_val d"
  then have "(of_char c :: nat) = of_char d"
    using assms unfolding is_digit_def digit_val_def by arith
  then show "c = d" by (rule of_char_eqI)
qed simp

lemma digit_literals:
  "is_digit CHR ''0''" "is_digit CHR ''1''" "is_digit CHR ''2''" "is_digit CHR ''3''"
  "\<not> is_digit CHR ''-''" "\<not> is_digit CHR '' ''"
  by (simp_all add: is_digit_def)

lemma digit_val_literals:
  "digit_val CHR ''0'' = 0" "digit_val CHR ''1'' = 1" "digit_val CHR ''2'' = 2"
  "digit_val CHR ''3'' = 3"
  by (simp_all add: digit_val_def)

lemma digit_is:
  assumes "is_digit c"
  shows "c = CHR ''0'' \<longleftrightarrow> digit_val c = 0" "c = CHR ''1'' \<longleftrightarrow> digit_val c = 1"
    "c = CHR ''2'' \<longleftrightarrow> digit_val c = 2" "c = CHR ''3'' \<longleftrightarrow> digit_val c = 3"
    "c \<noteq> CHR ''-''" "c \<noteq> CHR '' ''"
  using assms digit_eq_iff[OF assms] digit_literals digit_val_literals by auto

lemma month_alternatives_digits:
  assumes a: "is_digit a" and b: "is_digit b"
  shows "month_alternatives (a # b # r) =
           (if 1 \<le> 10 * digit_val a + digit_val b \<and> 10 * digit_val a + digit_val b \<le> 12
            then [(10 * digit_val a + digit_val b, r)] else [])
           @ (if nonzero_digit a then [(digit_val a, b # r)] else [])"
  using digit_val_le[OF a] digit_val_le[OF b]
  by (auto simp add: month_alternatives_def nonzero_digit_def a b digit_is[OF a] digit_is[OF b])

lemma day_alternatives_digits:
  assumes a: "is_digit a" and b: "is_digit b"
  shows "day_alternatives [a, b] =
           (if 1 \<le> 10 * digit_val a + digit_val b \<and> 10 * digit_val a + digit_val b \<le> 31
            then [(10 * digit_val a + digit_val b, [])] else [])
           @ (if nonzero_digit a then [(digit_val a, [b])] else [])"
  using digit_val_le[OF a] digit_val_le[OF b]
  by (auto simp add: day_alternatives_def nonzero_digit_def a b digit_is[OF a] digit_is[OF b])

lemma date_body_chars:
  assumes "date_body h"
  obtains c2 c3 c5 c6 c8 c9 where
    "h = [CHR ''2'', CHR ''0'', c2, c3, CHR ''-'', c5, c6, CHR ''-'', c8, c9]"
    "is_digit c2" "is_digit c3" "is_digit c5" "is_digit c6" "is_digit c8" "is_digit c9"
proof -
  from assms have "length h = 10" by (simp add: date_body_def)
  then obtain a0 a1 a2 a3 a4 a5 a6 a7 a8 a9 where h: "h = [a0, a1, a2, a3, a4, a5, a6, a7, a8, a9]"
    by (auto simp: eval_nat_numeral length_Suc_conv)
  with assms that show ?thesis by (simp add: date_body_def)
qed

lemma strptime_fields_hit:
  assumes "date_body h"
  shows "strptime_fields h =
           (if 1 \<le> hit_month h \<and> hit_month h \<le> 12 \<and> 1 \<le> hit_day h \<and> hit_day h \<le> 31
            then Inr (hit_year h, hit_month h, hit_day h) else Inl ValueError)"
proof -
  from assms obtain c2 c3 c5 c6 c8 c9 where
    h: "h = [CHR ''2'', CHR ''0'', c2, c3, CHR ''-'', c5, c6, CHR ''-'', c8, c9]"
    and d: "is_digit c2" "is_digit c3" "is_digit c5" "is_digit c6" "is_digit c8" "is_digit c9"
    by (rule date_body_chars)
  show ?thesis
    unfolding h strptime_fields_def hit_year_def hit_month_def hit_day_def
    by (simp add: d digit_literals digit_val_literals month_alternatives_digits[OF d(3,4)]
        day_alternatives_digits[OF d(5,6)] digit_is[OF d(4)])
qed

lemma days_in_month_le: "1 \<le> m \<Longrightarrow> m \<le> 12 \<Longrightarrow> days_in_month y m \<le> 31"
proof -
  assume "1 \<le> m" "m \<le> 12"
  then have "m = 1 \<or> m = 2 \<or> m = 3 \<or> m = 4 \<or> m = 5 \<or> m = 6 \<or> m = 7 \<or> m = 8 \<or> m = 9
      \<or> m = 10 \<or> m = 11 \<or> m = 12" by arith
  then show ?thesis by (elim disjE) (simp_all add: days_in_month_def)
qed

lemma parse_date_ymd_hit:
  assumes "date_body h"
  shows "parse_date_ymd h =
           (if check_date_fields (hit_year h) (hit_month h) (hit_day h)
            then Some (midnight (hit_year h) (hit_month h) (hit_day h)) else None)"
proof -
  have len: "take 10 h = h" using assms by (simp add: date_body_def)
  have "check_date_fields (hit_year h) (hit_month h) (hit_day h) \<Longrightarrow>
      1 \<le> hit_month h \<and> hit_month h \<le> 12 \<and> 1 \<le> hit_day h \<and> hit_day h \<le> 31"
    using days_in_month_le[of "hit_month h" "hit_year h"]
    by (auto simp: check_date_fields_def)
  moreover have "\<not> (1 \<le> hit_month h \<and> hit_month h \<le> 12 \<and> 1 \<le> hit_day h \<and> hit_day h \<le> 31) \<Longrightarrow>
      \<not> check_date_fields (hit_year h) (hit_month h) (hit_day h)"
    using calculation by blast
  ultimately show ?thesis
    unfolding parse_date_ymd_def strptime_utc_def len strptime_fields_hit[OF assms]
    by auto
qed

lemma hit_year_range: "date_body h \<Longrightarrow> 2000 \<le> hit_year h \<and> hit_year h \<le> 2099"
  using digit_val_le[of "h ! 2"] digit_val_le[of "h ! 3"]
  by (simp add: date_body_def hit_year_def)

lemma append_parsed_eq:
  "append_parsed hits dates = dates @ List.map_filter parse_date_ymd hits"
  by (induction hits arbitrary: dates) (simp_all add: List.map_filter_simps split: option.splits)

lemma extract_loop_eq:
  "extract_loop vs dates =
     dates @ concat (map (\<lambda>t. List.map_filter parse_date_ymd (DATE_RE_findall t))
                         (List.map_filter value_text vs))"
  by (induction vs dates rule: extract_loop.induct)
     (simp_all add: List.map_filter_simps append_parsed_eq)

lemma hit_equals_iff: "hit_equals hits t \<longleftrightarrow> t \<in> set hits"
  by (induction hits) auto

lemma target_loop_iff:
  "target_loop vs t \<longleftrightarrow> (\<exists>s \<in> set (List.map_filter value_text vs). t \<in> set (DATE_RE_findall s))"
  by (induction vs t rule: target_loop.induct)
     (simp_all add: List.map_filter_simps hit_equals_iff)


section \<open>Facts about the property scans and the coverage loop\<close>

lemma texts_simps:
  "texts None = []"
  "texts (Some d) = List.map_filter value_text (map snd d)"
  by (simp_all add: texts_def values_def List.map_filter_simps)

lemma feature_has_target_date_iff:
  "feature_has_target_date p t \<longleftrightarrow>
     (\<exists>s \<in> set (texts p). \<exists>i. delimited_date_at s i \<and> take 10 (drop i s) = t)"
  unfolding feature_has_target_date_def target_loop_iff texts_def DATE_RE_findall_hits
  by auto

lemma extract_dates_eq:
  "extract_dates_from_properties p =
     concat (map (\<lambda>t. List.map_filter parse_date_ymd (DATE_RE_findall t)) (texts p))"
  by (simp add: extract_dates_from_properties_def extract_loop_eq texts_def)

lemma in_set_map_filter:
  "y \<in> set (List.map_filter f xs) \<longleftrightarrow> (\<exists>x \<in> set xs. f x = Some y)"
  by (induction xs) (auto split: option.splits)

lemma findall_hit_body: "h \<in> set (DATE_RE_findall s) \<Longrightarrow> date_body h"
  by (auto simp: DATE_RE_findall_hits delimited_date_at_def)

lemma extend_dates_eq:
  "extend_dates fs dates =
     dates @ concat (map (\<lambda>f. extract_dates_from_properties (properties f)) fs)"
  by (induction fs arbitrary: dates) simp_all

lemma no_empty_target: "\<not> feature_has_target_date p []"
  by (auto simp: feature_has_target_date_iff delimited_date_at_def)

lemma satellite_rows_shown:
  assumes "aoi_shown aoi"
  shows "satellite_rows ops aoi sat \<noteq> None \<longleftrightarrow> contributes ops aoi sat"
proof (cases "ref_day sat")
  case None
  then show ?thesis by (simp add: satellite_rows_def contributes_def)
next
  case (Some day)
  show ?thesis
  proof (cases "day = []")
    case True
    with Some show ?thesis
      by (simp add: satellite_rows_def contributes_def no_empty_target list_ex_iff)
  next
    case False
    with Some assms show ?thesis
      by (auto simp: satellite_rows_def contributes_def Let_def list_ex_iff filter_empty_conv)
  qed
qed

lemma coverage_loop_not_shown:
  "\<not> aoi_shown aoi \<Longrightarrow> coverage_loop ops aoi sats acc = acc"
  by (induction sats arbitrary: acc) (simp_all split: option.splits)

lemma coverage_loop_keeps:
  "\<exists>y. coverage_loop ops aoi sats (Some x) = Some y"
  by (induction sats arbitrary: x) (auto split: option.splits)

lemma coverage_loop_shown:
  assumes "aoi_shown aoi"
  shows "coverage_loop ops aoi sats acc \<noteq> None \<longleftrightarrow>
           acc \<noteq> None \<or> (\<exists>sat \<in> set sats. contributes ops aoi sat)"
proof (induction sats arbitrary: acc)
  case Nil
  then show ?case by simp
next
  case (Cons sat sats)
  show ?case
  proof (cases "satellite_rows ops aoi sat")
    case None
    then have "\<not> contributes ops aoi sat"
      using satellite_rows_shown[OF assms, of ops sat] by simp
    with None Cons.IH show ?thesis by simp
  next
    case (Some sub)
    then have "contributes ops aoi sat"
      using satellite_rows_shown[OF assms, of ops sat] by simp
    with Some assms show ?thesis
      by (auto simp: coverage_loop_keeps split: option.splits)
  qed
qed

lemma findall_hit_delimited:
  assumes "h \<in> set (DATE_RE_findall s)"
  shows "\<exists>i. i + 10 \<le> length s \<and> h = take 10 (drop i s) \<and> date_body h \<and>
            (0 < i \<longrightarrow> \<not> is_word (s ! (i - 1))) \<and>
            (i + 10 < length s \<longrightarrow> \<not> is_word (s ! (i + 10)))"
proof -
  from assms obtain i where "delimited_date_at s i" and "h = take 10 (drop i s)"
    by (auto simp: DATE_RE_findall_hits)
  then show ?thesis
    by (intro exI[of _ i]) (auto simp: delimited_date_at_def)
qed

lemma extracted_date_hit:
  assumes "dt \<in> set (extract_dates_from_properties p)"
  shows "\<exists>s \<in> set (texts p). \<exists>h \<in> set (DATE_RE_findall s).
           2000 \<le> hit_year h \<and> hit_year h \<le> 2099 \<and>
           dt = midnight (hit_year h) (hit_month h) (hit_day h)"
proof -
  from assms obtain s h where s: "s \<in> set (texts p)" and h: "h \<in> set (DATE_RE_findall s)"
      and p: "parse_date_ymd h = Some dt"
    by (auto simp: extract_dates_eq in_set_map_filter)
  have b: "date_body h" using h by (rule findall_hit_body)
  from p[unfolded parse_date_ymd_hit[OF b]]
  have "dt = midnight (hit_year h) (hit_month h) (hit_day h)"
    by (auto split: if_splits)
  with s h hit_year_range[OF b] show ?thesis by blast
qed

lemma feature_has_target_date_hit:
  "feature_has_target_date p t \<longleftrightarrow> (\<exists>s \<in> set (texts p). t \<in> set (DATE_RE_findall s))"
  by (simp add: feature_has_target_date_def target_loop_iff texts_def)

lemma coverage_readout_eq:
  "coverage_readout ops aoi sats =
     (if aoi = None then None
      else case coverage_loop ops aoi sats None of
             None \<Rightarrow> None
           | Some u \<Rightarrow> (case area_percent ops (aoi_union ops aoi) u of
                         Inl e \<Rightarrow> None | Inr v \<Rightarrow> Some v))"
  by (simp add: coverage_readout_def Let_def split: option.splits)

lemma coverage_loop_None_iff:
  "coverage_loop ops aoi sats None = None \<longleftrightarrow>
     \<not> (aoi_shown aoi \<and> (\<exists>sat \<in> set sats. contributes ops aoi sat))"
proof (cases "aoi_shown aoi")
  case True
  from coverage_loop_shown[OF True, of ops sats None] True show ?thesis by auto
next
  case False
  then show ?thesis by (simp add: coverage_loop_not_shown)
qed

section \<open>Claims about the resolver\<close>

text \<open>
  C5.  For every period \<open>p > 0\<close>, \<^verbatim>\<open>same_phase(a, b, p)\<close> is true if and only if the
  difference of the calendar days of \<open>a\<close> and \<open>b\<close> is congruent to 0 modulo \<open>p\<close>; the
  times of day of both arguments play no part: setting both to midnight gives the same
  answer.
\<close>

theorem same_phase_calendar_days:
  "0 < p \<Longrightarrow>
     same_phase a b p = Inr ((ordinal a - ordinal b) mod p = 0) \<and>
     same_phase (Datetime (ordinal a) h1 m1 s1 u1) (Datetime (ordinal b) h2 m2 s2 u2) p
       = same_phase a b p"
  by (simp add: same_phase_def)

theorem same_phase_calendar_days_witness:
  "(0::int) < 12 \<and>
   same_phase (Datetime 738905 13 30 0 0) (Datetime 738893 7 0 0 5) 12
     = Inr ((ordinal (Datetime 738905 13 30 0 0) - ordinal (Datetime 738893 7 0 0 5)) mod 12 = 0) \<and>
   same_phase (Datetime (ordinal (Datetime 738905 13 30 0 0)) 0 0 0 0)
              (Datetime (ordinal (Datetime 738893 7 0 0 5)) 0 0 0 0) 12
     = same_phase (Datetime 738905 13 30 0 0) (Datetime 738893 7 0 0 5) 12 \<and>
   same_phase (Datetime 738905 13 30 0 0) (Datetime 738893 7 0 0 5) 12 = Inr True"
proof -
  have pos: "(0::int) < 12" by simp
  from same_phase_calendar_days[OF pos, of "Datetime 738905 13 30 0 0" "Datetime 738893 7 0 0 5" 0 0 0 0 0 0 0 0]
  show ?thesis by simp
qed

text \<open>
  C3.  When the reference list \<open>R\<close> is not empty, \<open>p > 0\<close> and no date of \<open>R\<close> is in
  phase with the chosen date \<open>d\<close>, the resolver takes as anchor the latest date of \<open>R\<close>
  that is not after \<open>d\<close>, or the earliest date of \<open>R\<close> when there is none, and returns
  \<open>d\<close> minus \<open>(d - anchor) mod p\<close> days, set to midnight UTC: its result is that of the
  library's subtraction, and where the day \<open>d - shift\<close> exists it is that day at
  midnight.  For \<open>p = 12\<close>, \<open>R = [2024-01-01, 2024-01-13]\<close> and \<open>d = 2024-01-20\<close> the
  result is 2024-01-13.
\<close>

theorem get_reference_date_fallback_rule:
  "(R \<noteq> [] \<and> 0 < p \<and> in_phase d p R = {} \<longrightarrow>
      get_reference_date d R p =
        (case sub_days d ((ordinal d - ordinal (anchor_of d R)) mod p) of
           Inl e \<Rightarrow> Inl e
         | Inr x \<Rightarrow> Inr (Some (replace_midnight x))) \<and>
      ((ordinal d - ordinal (anchor_of d R)) mod p < ordinal d \<and> ordinal d \<le> MAXORDINAL \<longrightarrow>
         get_reference_date d R p =
           Inr (Some (Datetime (ordinal d - (ordinal d - ordinal (anchor_of d R)) mod p) 0 0 0 0))))
   \<and> get_reference_date (midnight 2024 1 20) [midnight 2024 1 1, midnight 2024 1 13] 12
       = Inr (Some (midnight 2024 1 13))"
proof (intro conjI impI)
  assume h: "R \<noteq> [] \<and> 0 < p \<and> in_phase d p R = {}"
  then have p: "p \<noteq> 0" and Rne: "R \<noteq> []" and no: "in_phase d p R = {}" by auto
  show eq: "get_reference_date d R p =
        (case sub_days d ((ordinal d - ordinal (anchor_of d R)) mod p) of
           Inl e \<Rightarrow> Inl e
         | Inr x \<Rightarrow> Inr (Some (replace_midnight x)))"
    by (rule get_reference_date_fallback[OF p Rne no])
  assume r: "(ordinal d - ordinal (anchor_of d R)) mod p < ordinal d \<and> ordinal d \<le> MAXORDINAL"
  have "0 \<le> (ordinal d - ordinal (anchor_of d R)) mod p" using h by simp
  with r have "sub_days d ((ordinal d - ordinal (anchor_of d R)) mod p) =
      Inr (Datetime (ordinal d - (ordinal d - ordinal (anchor_of d R)) mod p)
             (hour d) (minute d) (second d) (microsecond d))"
    by (intro sub_days_in_range) auto
  with eq show "get_reference_date d R p =
           Inr (Some (Datetime (ordinal d - (ordinal d - ordinal (anchor_of d R)) mod p) 0 0 0 0))"
    by (simp add: replace_midnight_def)
next
  show "get_reference_date (midnight 2024 1 20) [midnight 2024 1 1, midnight 2024 1 13] 12
       = Inr (Some (midnight 2024 1 13))"
    by code_simp
qed

theorem get_reference_date_fallback_rule_witness:
  "[midnight 2024 1 1, midnight 2024 1 13] \<noteq> [] \<and> (0::int) < 12 \<and>
   in_phase (midnight 2024 1 20) 12 [midnight 2024 1 1, midnight 2024 1 13] = {} \<and>
   (ordinal (midnight 2024 1 20)
      - ordinal (anchor_of (midnight 2024 1 20) [midnight 2024 1 1, midnight 2024 1 13])) mod 12
     < ordinal (midnight 2024 1 20) \<and>
   ordinal (midnight 2024 1 20) \<le> MAXORDINAL \<and>
   get_reference_date (midnight 2024 1 20) [midnight 2024 1 1, midnight 2024 1 13] 12 =
     Inr (Some (Datetime (ordinal (midnight 2024 1 20)
       - (ordinal (midnight 2024 1 20)
            - ordinal (anchor_of (midnight 2024 1 20) [midnight 2024 1 1, midnight 2024 1 13])) mod 12)
       0 0 0 0))"
proof -
  let ?d = "midnight 2024 1 20" and ?R = "[midnight 2024 1 1, midnight 2024 1 13]"
  have h1: "?R \<noteq> [] \<and> (0::int) < 12 \<and> in_phase ?d 12 ?R = {}"
    by (auto simp add: in_phase_def same_phase_def calendar_defs)
  have "(ordinal ?d - ordinal (anchor_of ?d ?R)) mod 12 < 12" by simp
  moreover have "ordinal ?d = 738905" by (simp add: calendar_defs)
  ultimately have h2: "(ordinal ?d - ordinal (anchor_of ?d ?R)) mod 12 < ordinal ?d
      \<and> ordinal ?d \<le> MAXORDINAL"
    by (simp add: MAXORDINAL_def)
  from get_reference_date_fallback_rule[of ?R 12 ?d] h1 h2 show ?thesis by blast
qed

text \<open>
  C4.  When \<open>p > 0\<close> and some date of \<open>R\<close> is in phase with the chosen date \<open>d\<close>, the
  resolver returns the latest in-phase date that is not after \<open>d\<close>, and the earliest
  in-phase date when all of them are after \<open>d\<close>.  So no in-phase date that is not after
  \<open>d\<close> is later than the result.
\<close>

theorem get_reference_date_primary_rule:
  "0 < p \<and> in_phase d p R \<noteq> {} \<longrightarrow>
     get_reference_date d R p =
       Inr (Some (if not_after d (in_phase d p R) \<noteq> {}
                  then Max (not_after d (in_phase d p R))
                  else Min (in_phase d p R))) \<and>
     (\<forall>r \<in> not_after d (in_phase d p R).
        \<exists>x. get_reference_date d R p = Inr (Some x) \<and> x \<in> not_after d (in_phase d p R) \<and> r \<le> x)"
proof (intro impI conjI ballI)
  assume h: "0 < p \<and> in_phase d p R \<noteq> {}"
  then have p: "p \<noteq> 0" and ex: "in_phase d p R \<noteq> {}" by auto
  show eq: "get_reference_date d R p =
       Inr (Some (if not_after d (in_phase d p R) \<noteq> {}
                  then Max (not_after d (in_phase d p R))
                  else Min (in_phase d p R)))"
    by (rule get_reference_date_primary[OF p ex])
  fix r assume r: "r \<in> not_after d (in_phase d p R)"
  have fin: "finite (not_after d (in_phase d p R))"
    by (simp add: not_after_def in_phase_def)
  from r have ne: "not_after d (in_phase d p R) \<noteq> {}" by auto
  have "Max (not_after d (in_phase d p R)) \<in> not_after d (in_phase d p R)"
    using fin ne by (rule Max_in)
  moreover have "r \<le> Max (not_after d (in_phase d p R))"
    using fin r by (rule Max_ge)
  ultimately show "\<exists>x. get_reference_date d R p = Inr (Some x) \<and>
      x \<in> not_after d (in_phase d p R) \<and> r \<le> x"
    using eq ne by simp
qed

theorem get_reference_date_primary_rule_witness:
  "(0::int) < 12 \<and>
   in_phase (midnight 2024 1 14) 12 [midnight 2024 1 2, midnight 2024 1 13, midnight 2024 1 26] \<noteq> {} \<and>
   midnight 2024 1 2 \<in> not_after (midnight 2024 1 14)
       (in_phase (midnight 2024 1 14) 12 [midnight 2024 1 2, midnight 2024 1 13, midnight 2024 1 26]) \<and>
   (\<exists>x. get_reference_date (midnight 2024 1 14)
           [midnight 2024 1 2, midnight 2024 1 13, midnight 2024 1 26] 12 = Inr (Some x) \<and>
        x \<in> not_after (midnight 2024 1 14)
           (in_phase (midnight 2024 1 14) 12 [midnight 2024 1 2, midnight 2024 1 13, midnight 2024 1 26]) \<and>
        midnight 2024 1 2 \<le> x)"
proof -
  let ?d = "midnight 2024 1 14"
  let ?R = "[midnight 2024 1 2, midnight 2024 1 13, midnight 2024 1 26]"
  have mem: "midnight 2024 1 2 \<in> not_after ?d (in_phase ?d 12 ?R)"
    by (simp add: not_after_def in_phase_def same_phase_def calendar_defs
        less_eq_datetime_def cmp_key_def)
  then have h: "(0::int) < 12 \<and> in_phase ?d 12 ?R \<noteq> {}"
    by (auto simp: not_after_def)
  from get_reference_date_primary_rule[of 12 ?d ?R] h mem show ?thesis by blast
qed

text \<open>
  C6.  The resolver returns none for an empty reference list.  The claim that every
  non-empty list and every period \<open>p > 0\<close> give a value fails: with the period
  10000000, the chosen date 2024-01-20 and the single reference date 2024-01-21 the
  fallback subtracts 9999999 days and the library raises \<^verbatim>\<open>OverflowError\<close>.
\<close>

theorem get_reference_date_raises_counterexample:
  "valid_datetime (midnight 2024 1 20) \<and> valid_datetime (midnight 2024 1 21) \<and>
   [midnight 2024 1 21] \<noteq> [] \<and> (0::int) < 10000000 \<and>
   get_reference_date (midnight 2024 1 20) [midnight 2024 1 21] 10000000 = Inl OverflowError"
  by (simp add: valid_datetime_def calendar_defs get_reference_date_def same_phase_def
      py_min_def py_max_default_def sub_days_def MAXORDINAL_def less_eq_datetime_def cmp_key_def)

text \<open>
  C6, as amended.  The resolver returns none for an empty reference list.  For a non-empty
  list and \<open>p > 0\<close> it returns a value that is not none whenever some reference date is
  in phase with the chosen date, or the period is at most the day number of the chosen
  date (counted from 0001-01-01, so that the chosen date minus the shift is still a date
  of the calendar); in every other case the only failure is \<^verbatim>\<open>OverflowError\<close>.  The
  result is a function of the three arguments.
\<close>

theorem get_reference_date_returns:
  "get_reference_date d [] p = Inr None \<and>
   (R \<noteq> [] \<and> 0 < p \<and> ordinal d \<le> MAXORDINAL \<and> (in_phase d p R \<noteq> {} \<or> p \<le> ordinal d) \<longrightarrow>
      (\<exists>x. get_reference_date d R p = Inr (Some x))) \<and>
   (R \<noteq> [] \<and> 0 < p \<longrightarrow>
      (\<exists>x. get_reference_date d R p = Inr (Some x)) \<or>
      get_reference_date d R p = Inl OverflowError)"
proof (intro conjI impI)
  show "get_reference_date d [] p = Inr None"
    by (simp add: get_reference_date_def)
next
  assume h: "R \<noteq> [] \<and> 0 < p \<and> ordinal d \<le> MAXORDINAL \<and> (in_phase d p R \<noteq> {} \<or> p \<le> ordinal d)"
  then have p: "p \<noteq> 0" and Rne: "R \<noteq> []" by auto
  show "\<exists>x. get_reference_date d R p = Inr (Some x)"
  proof (cases "in_phase d p R = {}")
    case False
    from get_reference_date_primary[OF p False] show ?thesis by blast
  next
    case True
    let ?shift = "(ordinal d - ordinal (anchor_of d R)) mod p"
    have lo: "0 \<le> ?shift" and "?shift < p" using h by simp_all
    moreover have "p \<le> ordinal d" using h True by blast
    ultimately have hi: "?shift < ordinal d" by linarith
    have top: "ordinal d \<le> MAXORDINAL" using h by blast
    have "sub_days d ?shift =
        Inr (Datetime (ordinal d - ?shift) (hour d) (minute d) (second d) (microsecond d))"
      by (rule sub_days_in_range[OF lo hi top])
    with get_reference_date_fallback[OF p Rne True] show ?thesis by simp
  qed
next
  assume h: "R \<noteq> [] \<and> 0 < p"
  then have p: "p \<noteq> 0" and Rne: "R \<noteq> []" by auto
  show "(\<exists>x. get_reference_date d R p = Inr (Some x)) \<or>
      get_reference_date d R p = Inl OverflowError"
  proof (cases "in_phase d p R = {}")
    case False
    from get_reference_date_primary[OF p False] show ?thesis by blast
  next
    case True
    from sub_days_cases[of d "(ordinal d - ordinal (anchor_of d R)) mod p"]
      get_reference_date_fallback[OF p Rne True]
    show ?thesis by auto
  qed
qed

theorem get_reference_date_returns_witness:
  "[midnight 2024 1 1] \<noteq> [] \<and> (0::int) < 12 \<and> ordinal (midnight 2024 1 20) \<le> MAXORDINAL \<and>
   12 \<le> ordinal (midnight 2024 1 20) \<and>
   (\<exists>x. get_reference_date (midnight 2024 1 20) [midnight 2024 1 1] 12 = Inr (Some x))"
proof -
  have h: "[midnight 2024 1 1] \<noteq> [] \<and> (0::int) < 12 \<and> ordinal (midnight 2024 1 20) \<le> MAXORDINAL \<and>
      12 \<le> ordinal (midnight 2024 1 20)"
    by (simp add: calendar_defs MAXORDINAL_def)
  with get_reference_date_returns[of "midnight 2024 1 20" 12 "[midnight 2024 1 1]"]
  show ?thesis by blast
qed

text \<open>
  C1.  The claim that the returned value is always a member of the reference list fails:
  for \<open>p = 12\<close>, \<open>R = [2024-01-01]\<close> and \<open>d = 2024-01-20\<close> no reference date is in phase,
  and the fallback returns 2024-01-13, which is not in \<open>R\<close>.
\<close>

theorem get_reference_date_member_counterexample:
  "(0::int) < 12 \<and>
   get_reference_date (midnight 2024 1 20) [midnight 2024 1 1] 12 = Inr (Some (midnight 2024 1 13)) \<and>
   midnight 2024 1 13 \<notin> set [midnight 2024 1 1]"
  by code_simp

text \<open>
  C1, as amended.  For every reference list \<open>R\<close> and period \<open>p > 0\<close> the result is none
  exactly when \<open>R\<close> is empty, and whenever some date of \<open>R\<close> is in phase with the chosen
  date the returned value is a member of \<open>R\<close>.
\<close>

theorem get_reference_date_member:
  "0 < p \<longrightarrow>
     (get_reference_date d R p = Inr None \<longleftrightarrow> R = []) \<and>
     (in_phase d p R \<noteq> {} \<longrightarrow> (\<exists>x\<in>set R. get_reference_date d R p = Inr (Some x)))"
proof (intro impI conjI)
  assume pos: "0 < p"
  then have p: "p \<noteq> 0" by simp
  show "get_reference_date d R p = Inr None \<longleftrightarrow> R = []"
  proof
    assume none: "get_reference_date d R p = Inr None"
    show "R = []"
    proof (rule ccontr)
      assume Rne: "R \<noteq> []"
      show False
      proof (cases "in_phase d p R = {}")
        case False
        from get_reference_date_primary[OF p False] none show False by simp
      next
        case True
        from get_reference_date_fallback[OF p Rne True] none show False
          by (simp split: sum.splits)
      qed
    qed
  next
    assume "R = []"
    then show "get_reference_date d R p = Inr None"
      by (simp add: get_reference_date_def)
  qed
  assume ex: "in_phase d p R \<noteq> {}"
  have fin: "finite (in_phase d p R)" "finite (not_after d (in_phase d p R))"
    by (simp_all add: in_phase_def not_after_def)
  have sub: "not_after d (in_phase d p R) \<subseteq> in_phase d p R" "in_phase d p R \<subseteq> set R"
    by (auto simp: in_phase_def not_after_def)
  have "Min (in_phase d p R) \<in> set R"
    using Min_in[OF fin(1) ex] sub by blast
  moreover have "not_after d (in_phase d p R) \<noteq> {} \<Longrightarrow>
      Max (not_after d (in_phase d p R)) \<in> set R"
    using Max_in[OF fin(2)] sub by blast
  ultimately show "\<exists>x\<in>set R. get_reference_date d R p = Inr (Some x)"
    using get_reference_date_primary[OF p ex] by auto
qed

theorem get_reference_date_member_witness:
  "(0::int) < 12 \<and>
   in_phase (midnight 2024 1 14) 12 [midnight 2024 1 2, midnight 2024 1 13, midnight 2024 1 26] \<noteq> {} \<and>
   (\<exists>x\<in>set [midnight 2024 1 2, midnight 2024 1 13, midnight 2024 1 26].
      get_reference_date (midnight 2024 1 14)
        [midnight 2024 1 2, midnight 2024 1 13, midnight 2024 1 26] 12 = Inr (Some x))"
proof -
  let ?d = "midnight 2024 1 14"
  let ?R = "[midnight 2024 1 2, midnight 2024 1 13, midnight 2024 1 26]"
  have "midnight 2024 1 2 \<in> in_phase ?d 12 ?R"
    by (simp add: in_phase_def same_phase_def calendar_defs)
  then have h: "(0::int) < 12 \<and> in_phase ?d 12 ?R \<noteq> {}" by auto
  with get_reference_date_member[of 12 ?d ?R] show ?thesis by blast
qed

section \<open>Claims about the property scans\<close>

text \<open>
  C2.  The claim that \<^verbatim>\<open>feature_has_target_date\<close> is true exactly when some property
  value contains the target date as a substring fails, and so does its example: the text
  \<^verbatim>\<open>valid_from=2024-05-02T00:00Z\<close> contains \<^verbatim>\<open>2024-05-02\<close> at offset 11, but the letter
  \<^verbatim>\<open>T\<close> follows the date, so the pattern's closing \<^verbatim>\<open>\b\<close> does not hold and nothing is
  found.
\<close>

theorem feature_has_target_date_substring_counterexample:
  "take 10 (drop 11 ''valid_from=2024-05-02T00:00Z'') = ''2024-05-02'' \<and>
   \<not> feature_has_target_date
       (Some [(''validity'', PStr ''valid_from=2024-05-02T00:00Z'')]) ''2024-05-02''"
  by code_simp

text \<open>
  C2, as amended.  \<^verbatim>\<open>feature_has_target_date(props, target)\<close> is true exactly when the
  text of some property value that is not none contains the target at a position where
  it has the shape \<^verbatim>\<open>20dd-dd-dd\<close> and is neither preceded nor followed by a word
  character.  The value \<^verbatim>\<open>valid_from=2024-05-02 00:00Z\<close> matches the target
  \<^verbatim>\<open>2024-05-02\<close> and not \<^verbatim>\<open>2024-05-03\<close>; the value \<^verbatim>\<open>valid_from=2024-05-02T00:00Z\<close>
  does not match \<^verbatim>\<open>2024-05-03\<close>.
\<close>

theorem feature_has_target_date_delimited:
  "(feature_has_target_date p t \<longleftrightarrow>
      (\<exists>s \<in> set (texts p). \<exists>i. delimited_date_at s i \<and> take 10 (drop i s) = t)) \<and>
   feature_has_target_date (Some [(''validity'', PStr ''valid_from=2024-05-02 00:00Z'')]) ''2024-05-02'' \<and>
   \<not> feature_has_target_date (Some [(''validity'', PStr ''valid_from=2024-05-02 00:00Z'')]) ''2024-05-03'' \<and>
   \<not> feature_has_target_date (Some [(''validity'', PStr ''valid_from=2024-05-02T00:00Z'')]) ''2024-05-03''"
proof (intro conjI)
  show "feature_has_target_date p t \<longleftrightarrow>
      (\<exists>s \<in> set (texts p). \<exists>i. delimited_date_at s i \<and> take 10 (drop i s) = t)"
    by (rule feature_has_target_date_iff)
  show "feature_has_target_date (Some [(''validity'', PStr ''valid_from=2024-05-02 00:00Z'')]) ''2024-05-02''"
    by code_simp
  show "\<not> feature_has_target_date (Some [(''validity'', PStr ''valid_from=2024-05-02 00:00Z'')]) ''2024-05-03''"
    by code_simp
  show "\<not> feature_has_target_date (Some [(''validity'', PStr ''valid_from=2024-05-02T00:00Z'')]) ''2024-05-03''"
    by code_simp
qed

theorem feature_has_target_date_delimited_witness:
  "feature_has_target_date (Some [(''note'', PNone), (''validity'', PStr ''from 2024-05-02'')]) ''2024-05-02'' \<and>
   (\<exists>s \<in> set (texts (Some [(''note'', PNone), (''validity'', PStr ''from 2024-05-02'')])).
      \<exists>i. delimited_date_at s i \<and> take 10 (drop i s) = ''2024-05-02'') \<and>
   delimited_date_at ''from 2024-05-02'' 5"
proof -
  have a: "feature_has_target_date
      (Some [(''note'', PNone), (''validity'', PStr ''from 2024-05-02'')]) ''2024-05-02''"
    by code_simp
  have b: "delimited_date_at ''from 2024-05-02'' 5"
    by (simp add: delimited_date_at_def date_body_def is_digit_def is_word_def)
  from a b feature_has_target_date_delimited[of
      "Some [(''note'', PNone), (''validity'', PStr ''from 2024-05-02'')]" "''2024-05-02''"]
  show ?thesis by blast
qed

text \<open>
  C7.  The reference dates derived for a satellite's plan are strictly ascending and hold
  no value twice; they are the dates extracted from the properties of its features.
\<close>

theorem reference_dates_strictly_ascending:
  "sorted_wrt (<) (reference_dates fs) \<and> distinct (reference_dates fs) \<and>
   set (reference_dates fs) =
     (\<Union>f \<in> set fs. set (extract_dates_from_properties (properties f)))"
proof -
  have "sorted (reference_dates fs)" and d: "distinct (reference_dates fs)"
    by (simp_all add: reference_dates_def)
  then have "sorted_wrt (<) (reference_dates fs)"
    by (simp add: strict_sorted_iff)
  moreover have "set (reference_dates fs) =
      (\<Union>f \<in> set fs. set (extract_dates_from_properties (properties f)))"
    by (simp add: reference_dates_def extend_dates_eq)
  ultimately show ?thesis using d by blast
qed

theorem reference_dates_strictly_ascending_witness:
  "reference_dates
     [\<lparr> properties = Some [(''to'', PStr ''2024-01-13''), (''from'', PStr ''2024-01-01'')],
        geometry = () \<rparr>,
      \<lparr> properties = Some [(''from'', PStr ''2024-01-01'')], geometry = () \<rparr>]
     = [midnight 2024 1 1, midnight 2024 1 13] \<and>
   sorted_wrt (<) [midnight 2024 1 1, midnight 2024 1 13] \<and>
   distinct [midnight 2024 1 1, midnight 2024 1 13]"
proof -
  let ?fs = "[\<lparr> properties = Some [(''to'', PStr ''2024-01-13''), (''from'', PStr ''2024-01-01'')],
                geometry = () \<rparr>,
              \<lparr> properties = Some [(''from'', PStr ''2024-01-01'')], geometry = () \<rparr>]"
  have e: "reference_dates ?fs = [midnight 2024 1 1, midnight 2024 1 13]"
    by code_simp
  from reference_dates_strictly_ascending[of ?fs] show ?thesis
    unfolding e by blast
qed

text \<open>
  C8.  \<^verbatim>\<open>extract_dates_from_properties\<close> returns, for every property map, the list of the
  parsed hits of the texts of its values, in order: it is a total function, since
  \<^verbatim>\<open>parse_date_ymd\<close> turns every exception of the parser into none and a hit that does
  not parse is skipped.  A hit of the pattern parses exactly when its month and day
  fields form a calendar date, and then to that day at midnight UTC.  The hit
  \<^verbatim>\<open>2024-13-45\<close> is found by the pattern, does not parse, and is dropped.
\<close>

theorem extract_dates_drops_invalid_hits:
  "extract_dates_from_properties p =
     concat (map (\<lambda>t. List.map_filter parse_date_ymd (DATE_RE_findall t)) (texts p)) \<and>
   (\<forall>t \<in> set (texts p). \<forall>h \<in> set (DATE_RE_findall t).
      parse_date_ymd h =
        (if check_date_fields (hit_year h) (hit_month h) (hit_day h)
         then Some (midnight (hit_year h) (hit_month h) (hit_day h)) else None)) \<and>
   DATE_RE_findall ''2024-13-45'' = [''2024-13-45''] \<and>
   parse_date_ymd ''2024-13-45'' = None \<and>
   extract_dates_from_properties
     (Some [(''first'', PStr ''2024-13-45''), (''second'', PStr ''2024-02-29'')])
     = [midnight 2024 2 29]"
proof (intro conjI ballI)
  show "extract_dates_from_properties p =
     concat (map (\<lambda>t. List.map_filter parse_date_ymd (DATE_RE_findall t)) (texts p))"
    by (rule extract_dates_eq)
next
  fix t h assume "t \<in> set (texts p)" and "h \<in> set (DATE_RE_findall t)"
  then have "date_body h" by (simp add: findall_hit_body)
  then show "parse_date_ymd h =
        (if check_date_fields (hit_year h) (hit_month h) (hit_day h)
         then Some (midnight (hit_year h) (hit_month h) (hit_day h)) else None)"
    by (rule parse_date_ymd_hit)
next
  show "DATE_RE_findall ''2024-13-45'' = [''2024-13-45'']" by code_simp
  show "parse_date_ymd ''2024-13-45'' = None" by code_simp
  show "extract_dates_from_properties
     (Some [(''first'', PStr ''2024-13-45''), (''second'', PStr ''2024-02-29'')])
     = [midnight 2024 2 29]" by code_simp
qed

theorem extract_dates_drops_invalid_hits_witness:
  "''2024-13-45 2024-02-29'' \<in> set (texts (Some [(''first'', PStr ''2024-13-45 2024-02-29'')])) \<and>
   ''2024-13-45'' \<in> set (DATE_RE_findall ''2024-13-45 2024-02-29'') \<and>
   ''2024-02-29'' \<in> set (DATE_RE_findall ''2024-13-45 2024-02-29'') \<and>
   \<not> check_date_fields (hit_year ''2024-13-45'') (hit_month ''2024-13-45'') (hit_day ''2024-13-45'') \<and>
   check_date_fields (hit_year ''2024-02-29'') (hit_month ''2024-02-29'') (hit_day ''2024-02-29'') \<and>
   parse_date_ymd ''2024-13-45'' = None \<and>
   parse_date_ymd ''2024-02-29''
     = Some (midnight (hit_year ''2024-02-29'') (hit_month ''2024-02-29'') (hit_day ''2024-02-29''))"
proof -
  have t: "''2024-13-45 2024-02-29'' \<in> set (texts (Some [(''first'', PStr ''2024-13-45 2024-02-29'')]))"
    by (simp add: texts_simps)
  have f: "DATE_RE_findall ''2024-13-45 2024-02-29'' = [''2024-13-45'', ''2024-02-29'']"
    by code_simp
  have c1: "\<not> check_date_fields (hit_year ''2024-13-45'') (hit_month ''2024-13-45'') (hit_day ''2024-13-45'')"
    by code_simp
  have c2: "check_date_fields (hit_year ''2024-02-29'') (hit_month ''2024-02-29'') (hit_day ''2024-02-29'')"
    by code_simp
  from extract_dates_drops_invalid_hits[of "Some [(''first'', PStr ''2024-13-45 2024-02-29'')]"]
  have "\<forall>h \<in> set (DATE_RE_findall ''2024-13-45 2024-02-29'').
      parse_date_ymd h =
        (if check_date_fields (hit_year h) (hit_month h) (hit_day h)
         then Some (midnight (hit_year h) (hit_month h) (hit_day h)) else None)"
    using t by blast
  with f c1 c2 t show ?thesis by simp
qed

text \<open>
  C10.  Date extraction and target-date matching see a text only through the hits of the
  pattern.  Every hit is ten characters of the text of the shape \<^verbatim>\<open>20dd-dd-dd\<close>, with no
  word character directly before or behind them.  So every extracted date is the
  midnight of a hit whose year is between 2000 and 2099, and a target that
  \<^verbatim>\<open>feature_has_target_date\<close> accepts is itself such a hit of some value's text.
\<close>

theorem only_delimited_dates_recognised:
  "(h \<in> set (DATE_RE_findall s) \<longrightarrow>
      (\<exists>i. i + 10 \<le> length s \<and> h = take 10 (drop i s) \<and> date_body h \<and>
           (0 < i \<longrightarrow> \<not> is_word (s ! (i - 1))) \<and>
           (i + 10 < length s \<longrightarrow> \<not> is_word (s ! (i + 10))))) \<and>
   (\<forall>dt \<in> set (extract_dates_from_properties p).
      \<exists>s \<in> set (texts p). \<exists>h \<in> set (DATE_RE_findall s).
        2000 \<le> hit_year h \<and> hit_year h \<le> 2099 \<and>
        dt = midnight (hit_year h) (hit_month h) (hit_day h)) \<and>
   (feature_has_target_date p t \<longrightarrow>
      (\<exists>s \<in> set (texts p). t \<in> set (DATE_RE_findall s)) \<and>
      2000 \<le> hit_year t \<and> hit_year t \<le> 2099)"
proof (intro conjI impI ballI)
  assume "h \<in> set (DATE_RE_findall s)"
  then show "\<exists>i. i + 10 \<le> length s \<and> h = take 10 (drop i s) \<and> date_body h \<and>
           (0 < i \<longrightarrow> \<not> is_word (s ! (i - 1))) \<and>
           (i + 10 < length s \<longrightarrow> \<not> is_word (s ! (i + 10)))"
    by (rule findall_hit_delimited)
next
  fix dt assume "dt \<in> set (extract_dates_from_properties p)"
  then show "\<exists>s \<in> set (texts p). \<exists>h \<in> set (DATE_RE_findall s).
        2000 \<le> hit_year h \<and> hit_year h \<le> 2099 \<and>
        dt = midnight (hit_year h) (hit_month h) (hit_day h)"
    by (rule extracted_date_hit)
next
  assume t: "feature_has_target_date p t"
  then show ex: "\<exists>s \<in> set (texts p). t \<in> set (DATE_RE_findall s)"
    by (simp add: feature_has_target_date_hit)
  then have "date_body t" by (auto dest: findall_hit_body)
  then show "2000 \<le> hit_year t" and "hit_year t \<le> 2099"
    using hit_year_range by blast+
qed

theorem only_delimited_dates_recognised_witness:
  "DATE_RE_findall ''x2024-05-02 1999-12-31 2024-05-031 _2024-05-04 2100-01-01 2024-05-05''
     = [''2024-05-05''] \<and>
   extract_dates_from_properties
     (Some [(''k'', PStr ''x2024-05-02 1999-12-31 2024-05-031 _2024-05-04 2100-01-01 2024-05-05'')])
     = [midnight 2024 5 5] \<and>
   feature_has_target_date
     (Some [(''k'', PStr ''x2024-05-02 1999-12-31 2024-05-031 _2024-05-04 2100-01-01 2024-05-05'')])
     ''2024-05-05'' \<and>
   (\<exists>i. i + 10 \<le> length ''x2024-05-02 1999-12-31 2024-05-031 _2024-05-04 2100-01-01 2024-05-05'' \<and>
     ''2024-05-05'' =
       take 10 (drop i ''x2024-05-02 1999-12-31 2024-05-031 _2024-05-04 2100-01-01 2024-05-05'') \<and>
     date_body ''2024-05-05'' \<and>
     (0 < i \<longrightarrow> \<not> is_word
        (''x2024-05-02 1999-12-31 2024-05-031 _2024-05-04 2100-01-01 2024-05-05'' ! (i - 1))) \<and>
     (i + 10 < length ''x2024-05-02 1999-12-31 2024-05-031 _2024-05-04 2100-01-01 2024-05-05'' \<longrightarrow>
        \<not> is_word (''x2024-05-02 1999-12-31 2024-05-031 _2024-05-04 2100-01-01 2024-05-05'' ! (i + 10)))) \<and>
   2000 \<le> hit_year ''2024-05-05'' \<and> hit_year ''2024-05-05'' \<le> 2099"
proof -
  let ?s = "''x2024-05-02 1999-12-31 2024-05-031 _2024-05-04 2100-01-01 2024-05-05''"
  let ?p = "Some [(''k'', PStr ?s)]"
  have f: "DATE_RE_findall ?s = [''2024-05-05'']" by code_simp
  have e: "extract_dates_from_properties ?p = [midnight 2024 5 5]" by code_simp
  have t: "feature_has_target_date ?p ''2024-05-05''" by code_simp
  have h: "''2024-05-05'' \<in> set (DATE_RE_findall ?s)" using f by simp
  from only_delimited_dates_recognised[of "''2024-05-05''" ?s ?p "''2024-05-05''"] h t f e
  show ?thesis by blast
qed

section \<open>Claims about the coverage readout\<close>

text \<open>
  C9.  The coverage percentage is shown only when an area of interest is present (and its
  table is not empty) and at least one satellite has a feature that carries its reference
  day and intersects the area of interest.  When an area of interest is present and no
  such feature exists, the coverage union stays none and nothing is shown.  When the
  union exists, what is shown is the result of the area computation, and a failure of
  that computation shows nothing instead of raising.
\<close>

theorem coverage_readout_conditions:
  "(coverage_readout ops aoi sats \<noteq> None \<longrightarrow>
      aoi_shown aoi \<and> (\<exists>sat \<in> set sats. contributes ops aoi sat)) \<and>
   (aoi \<noteq> None \<and> (\<forall>sat \<in> set sats. \<not> contributes ops aoi sat) \<longrightarrow>
      coverage_loop ops aoi sats None = None \<and> coverage_readout ops aoi sats = None) \<and>
   (aoi_shown aoi \<and> (\<exists>sat \<in> set sats. contributes ops aoi sat) \<longrightarrow>
      (\<exists>u. coverage_loop ops aoi sats None = Some u \<and>
           coverage_readout ops aoi sats =
             (case area_percent ops (aoi_union ops aoi) u of
                Inl e \<Rightarrow> None
              | Inr v \<Rightarrow> Some v)))"
proof (intro conjI impI)
  assume r: "coverage_readout ops aoi sats \<noteq> None"
  have "\<not> coverage_loop ops aoi sats None = None"
  proof
    assume "coverage_loop ops aoi sats None = None"
    then have "coverage_readout ops aoi sats = None"
      by (simp add: coverage_readout_eq)
    with r show False by contradiction
  qed
  then have "aoi_shown aoi \<and> (\<exists>sat \<in> set sats. contributes ops aoi sat)"
    unfolding coverage_loop_None_iff by blast
  then show "aoi_shown aoi" and "\<exists>sat \<in> set sats. contributes ops aoi sat"
    by blast+
next
  assume h: "aoi \<noteq> None \<and> (\<forall>sat \<in> set sats. \<not> contributes ops aoi sat)"
  then show l: "coverage_loop ops aoi sats None = None"
    unfolding coverage_loop_None_iff by blast
  then show "coverage_readout ops aoi sats = None"
    by (simp add: coverage_readout_eq)
next
  assume h: "aoi_shown aoi \<and> (\<exists>sat \<in> set sats. contributes ops aoi sat)"
  then have "\<not> coverage_loop ops aoi sats None = None"
    unfolding coverage_loop_None_iff by blast
  then obtain u where u: "coverage_loop ops aoi sats None = Some u" by blast
  moreover have "aoi \<noteq> None" using h by (auto simp: aoi_shown_def split: option.splits)
  ultimately have "coverage_readout ops aoi sats =
             (case area_percent ops (aoi_union ops aoi) u of
                Inl e \<Rightarrow> None
              | Inr v \<Rightarrow> Some v)"
    by (auto simp add: coverage_readout_eq)
  with u show "\<exists>u. coverage_loop ops aoi sats None = Some u \<and>
           coverage_readout ops aoi sats =
             (case area_percent ops (aoi_union ops aoi) u of
                Inl e \<Rightarrow> None
              | Inr v \<Rightarrow> Some v)"
    by blast
qed

theorem coverage_readout_conditions_witness:
  "coverage_readout cell_ops (Some [[2, 3], [4, 5]]) [demo_sat] \<noteq> None \<and>
   aoi_shown (Some [[2, 3], [4, 5 :: nat]]) \<and>
   (\<exists>sat \<in> set [demo_sat]. contributes cell_ops (Some [[2, 3], [4, 5]]) sat) \<and>
   (\<exists>u. coverage_loop cell_ops (Some [[2, 3], [4, 5]]) [demo_sat] None = Some u \<and>
        coverage_readout cell_ops (Some [[2, 3], [4, 5]]) [demo_sat] =
          (case area_percent cell_ops (aoi_union cell_ops (Some [[2, 3], [4, 5]])) u of
             Inl e \<Rightarrow> None
           | Inr v \<Rightarrow> Some v)) \<and>
   Some [[8, 9 :: nat]] \<noteq> None \<and>
   \<not> contributes cell_ops (Some [[8, 9]]) demo_sat \<and>
   coverage_loop cell_ops (Some [[8, 9]]) [demo_sat] None = None \<and>
   coverage_readout cell_ops (Some [[8, 9]]) [demo_sat] = None"
proof -
  have shown: "aoi_shown (Some [[2, 3], [4, 5 :: nat]])"
    by (simp add: aoi_shown_def)
  have c: "contributes cell_ops (Some [[2, 3], [4, 5]]) demo_sat"
    by code_simp
  have n: "\<not> contributes cell_ops (Some [[8, 9]]) demo_sat"
    by code_simp
  have r: "coverage_readout cell_ops (Some [[2, 3], [4, 5]]) [demo_sat] = Some 25"
    by code_simp
  from coverage_readout_conditions[of cell_ops "Some [[2, 3], [4, 5]]" "[demo_sat]"] shown c r
  have a: "\<exists>u. coverage_loop cell_ops (Some [[2, 3], [4, 5]]) [demo_sat] None = Some u \<and>
        coverage_readout cell_ops (Some [[2, 3], [4, 5]]) [demo_sat] =
          (case area_percent cell_ops (aoi_union cell_ops (Some [[2, 3], [4, 5]])) u of
             Inl e \<Rightarrow> None
           | Inr v \<Rightarrow> Some v)"
    by simp
  from coverage_readout_conditions[of cell_ops "Some [[8, 9]]" "[demo_sat]"] n
  have b: "coverage_loop cell_ops (Some [[8, 9]]) [demo_sat] None = None \<and>
      coverage_readout cell_ops (Some [[8, 9]]) [demo_sat] = None"
    by simp
  from shown c r a b n show ?thesis by simp
qed

end
